theory Spec2Isabelle
  imports Main
begin

section \<open>Constants and types (constants.ts, types.ts)\<close>

text \<open>
  A melody is a JavaScript array of type \<open>(string | null)[]\<close>. A slot is a
  \<open>string option\<close>: \<open>None\<close> stands for \<open>null\<close> and for the \<open>undefined\<close> of a read
  past the end of the array; the source never tells the two apart (it only tests
  truthiness and \<open>===\<close> against a string).
\<close>

type_synonym token = "string option"
type_synonym Melody = "token list"

definition STEPS_PER_BAR :: nat where
  "STEPS_PER_BAR = 8"

definition NUM_BARS :: nat where
  "NUM_BARS = 4"

definition TOTAL_STEPS :: nat where
  "TOTAL_STEPS = STEPS_PER_BAR * NUM_BARS"

definition SUSTAIN_TOKEN :: string where
  "SUSTAIN_TOKEN = ''HOLD''"

definition SCALE_NOTES :: "string list" where
  "SCALE_NOTES = [''C'', ''D'', ''E'', ''F'', ''G'', ''A'', ''B'']"

text \<open>
  A chord of types.ts. Only \<open>root\<close> and \<open>notes\<close> are read by the sequencer
  and the piano roll's logic; the display fields (roman, name, mood, type, color) are left
  out. (\<open>notes\<close> is a reserved word of Isabelle, hence the prefix.)
\<close>

record Chord =
  chord_id :: string
  chord_notes :: "string list"
  chord_root :: string

type_synonym Progression = "Chord list"

definition CHORDS_C_MAJOR :: "Chord list" where
  "CHORDS_C_MAJOR =
     [\<lparr>chord_id = ''I'', chord_notes = [''C'', ''E'', ''G''], chord_root = ''C''\<rparr>,
      \<lparr>chord_id = ''ii'', chord_notes = [''D'', ''F'', ''A''], chord_root = ''D''\<rparr>,
      \<lparr>chord_id = ''iii'', chord_notes = [''E'', ''G'', ''B''], chord_root = ''E''\<rparr>,
      \<lparr>chord_id = ''IV'', chord_notes = [''F'', ''A'', ''C''], chord_root = ''F''\<rparr>,
      \<lparr>chord_id = ''V'', chord_notes = [''G'', ''B'', ''D''], chord_root = ''G''\<rparr>,
      \<lparr>chord_id = ''vi'', chord_notes = [''A'', ''C'', ''E''], chord_root = ''A''\<rparr>,
      \<lparr>chord_id = ''vii'', chord_notes = [''B'', ''D'', ''F''], chord_root = ''B''\<rparr>]"

definition DEFAULT_PROGRESSION :: Progression where
  "DEFAULT_PROGRESSION =
     [CHORDS_C_MAJOR ! 0, CHORDS_C_MAJOR ! 5, CHORDS_C_MAJOR ! 3, CHORDS_C_MAJOR ! 4]"

datatype NoteMode = chord | scale | chromatic

subsection \<open>JavaScript array reads and writes\<close>

text \<open>\<open>xs[i]\<close>: a read past the end yields \<open>undefined\<close>.\<close>

definition js_get :: "'a option list \<Rightarrow> nat \<Rightarrow> 'a option" where
  "js_get xs i = (if i < length xs then xs ! i else None)"

text \<open>\<open>xs[i] = v\<close>: a write past the end extends the array, leaving holes.\<close>

definition js_set :: "'a option list \<Rightarrow> nat \<Rightarrow> 'a option \<Rightarrow> 'a option list" where
  "js_set xs i v =
     (if i < length xs then xs[i := v]
      else xs @ replicate (i - length xs) None @ [v])"

text \<open>Truthiness of a slot: \<open>null\<close>, \<open>undefined\<close> and the empty string are falsy.\<close>

definition truthy :: "token \<Rightarrow> bool" where
  "truthy t = (case t of None \<Rightarrow> False | Some s \<Rightarrow> s \<noteq> [])"

text \<open>\<open>xs[i]\<close> on an array without empty slots (the progression).\<close>

definition js_index :: "'a list \<Rightarrow> nat \<Rightarrow> 'a option" where
  "js_index xs i = (if i < length xs then Some (xs ! i) else None)"

section \<open>The audio service (services/audio.ts)\<close>

text \<open>
  Tone.js is an external library. Of a \<open>Tone.PolySynth\<close> the model keeps the voices
  triggered and not yet cut by \<open>releaseAll\<close>: the notes of each
  \<open>triggerAttackRelease\<close> with its duration, in eighth-note subdivisions
  (\<open>Tone.Time("8n").toSeconds() * durationSteps\<close>) or in measures (\<open>"1m"\<close>). The
  release of a voice at the end of its duration happens in real time and is not part of
  the model. Of \<open>Tone.Transport\<close> the model keeps the state, as
  \<open>start\<close>, \<open>pause\<close> and \<open>stop\<close> set it (\<open>pause\<close> acts on a started transport
  only).
\<close>

datatype Duration = eighths nat | measures nat

type_synonym PolySynth = "(string list \<times> Duration) list"

datatype TransportState = started | stopped | paused

definition Transport_start :: "TransportState \<Rightarrow> TransportState" where
  "Transport_start t = started"

definition Transport_pause :: "TransportState \<Rightarrow> TransportState" where
  "Transport_pause t = (if t = started then paused else t)"

definition Transport_stop :: "TransportState \<Rightarrow> TransportState" where
  "Transport_stop t = stopped"

definition triggerAttackRelease :: "PolySynth \<Rightarrow> string list \<Rightarrow> Duration \<Rightarrow> PolySynth" where
  "triggerAttackRelease s ns d = s @ [(ns, d)]"

text \<open>
  The fields of the class; \<open>None\<close> is \<open>null\<close>. \<open>onStepCallback\<close> records whether a
  callback is set (the only one ever set is the view's \<open>setCurrentStep\<close>).
  The effect nodes (\<open>reverb\<close>, \<open>limiter\<close>) and the \<open>sequence\<close> object are left out:
  the sequence's callback is \<open>sequenceCallback\<close> below.
\<close>

record AudioService =
  synth :: "PolySynth option"
  chordSynth :: "PolySynth option"
  melody :: Melody
  progression :: "Progression option"
  isInitialized :: bool
  isChordEnabled :: bool
  onStepCallback :: bool
  currentStepIndex :: nat
  transport :: TransportState

text \<open>\<open>init\<close>: creates the two synths once; the first lines unlock the audio context.\<close>

definition init :: "AudioService \<Rightarrow> AudioService" where
  "init a =
     (if isInitialized a then a
      else a\<lparr>synth := Some [], chordSynth := Some [], isInitialized := True\<rparr>)"

text \<open>The loop that counts the sustain markers after the head (audio.ts, lines 85-91).\<close>

function durationSteps_loop :: "Melody \<Rightarrow> nat \<Rightarrow> nat \<Rightarrow> nat" where
  "durationSteps_loop m i durationSteps =
     (if i < length m then
        (if js_get m i = Some SUSTAIN_TOKEN then durationSteps_loop m (Suc i) (Suc durationSteps)
         else durationSteps)
      else durationSteps)"
  by pat_completeness auto
termination
  by (relation "measure (\<lambda>(m, i, durationSteps). length m - i)") auto

definition triggerChord :: "AudioService \<Rightarrow> nat \<Rightarrow> AudioService" where
  "triggerChord a barIndex =
     (case (chordSynth a, progression a) of
        (Some cs, Some prog) \<Rightarrow>
          (case js_index prog barIndex of
             None \<Rightarrow> a
           | Some c \<Rightarrow>
               a\<lparr>chordSynth := Some (triggerAttackRelease cs
                    ((chord_root c @ ''3'') #
                       map (\<lambda>x. x @ ''4'') (filter (\<lambda>x. x \<noteq> chord_root c) (chord_notes c)))
                    (measures 1))\<rparr>)
      | _ \<Rightarrow> a)"

text \<open>
  The melody part of the sequence's callback (lines 82-94): a slot that is truthy and not
  the sustain marker triggers the melody synth, if there is one.
\<close>

definition melodyStep :: "AudioService \<Rightarrow> nat \<Rightarrow> AudioService" where
  "melodyStep a stepIndex =
     (case synth a of
        None \<Rightarrow> a
      | Some s \<Rightarrow>
          (case js_get (melody a) stepIndex of
             None \<Rightarrow> a
           | Some note \<Rightarrow>
               if truthy (Some note) \<and> note \<noteq> SUSTAIN_TOKEN then
                 a\<lparr>synth := Some (triggerAttackRelease s [note]
                      (eighths (durationSteps_loop (melody a) (stepIndex + 1) 1)))\<rparr>
               else a))"

text \<open>The chord part of the callback (lines 96-101).\<close>

definition chordStep :: "AudioService \<Rightarrow> nat \<Rightarrow> AudioService" where
  "chordStep a stepIndex =
     (if isChordEnabled a \<and> chordSynth a \<noteq> None \<and> progression a \<noteq> None then
        (if stepIndex mod STEPS_PER_BAR = 0 then triggerChord a (stepIndex div STEPS_PER_BAR)
         else a)
      else a)"

text \<open>
  The callback of the \<open>Tone.Sequence\<close>, fired once per eighth note with the step index.
  It returns the service and the step reported to the view, if a callback is set.
\<close>

definition sequenceCallback :: "AudioService \<Rightarrow> nat \<Rightarrow> AudioService \<times> nat option" where
  "sequenceCallback a stepIndex =
     (chordStep (melodyStep (a\<lparr>currentStepIndex := stepIndex\<rparr>) stepIndex) stepIndex,
      if onStepCallback a then Some stepIndex else None)"

definition updateMelody :: "AudioService \<Rightarrow> Melody \<Rightarrow> AudioService" where
  "updateMelody a m = a\<lparr>melody := m\<rparr>"

definition releaseAll :: "AudioService \<Rightarrow> AudioService" where
  "releaseAll a =
     a\<lparr>chordSynth := (case chordSynth a of None \<Rightarrow> None | Some cs \<Rightarrow> Some []),
       synth := (case synth a of None \<Rightarrow> None | Some s \<Rightarrow> Some [])\<rparr>"

definition play :: "AudioService \<Rightarrow> AudioService" where
  "play a =
     (let a1 = (if \<not> isInitialized a then init a else a)
      in a1\<lparr>transport := Transport_start (transport a1)\<rparr>)"

definition pause :: "AudioService \<Rightarrow> AudioService" where
  "pause a = releaseAll (a\<lparr>transport := Transport_pause (transport a)\<rparr>)"

definition stop :: "AudioService \<Rightarrow> AudioService" where
  "stop a = releaseAll (a\<lparr>transport := Transport_stop (transport a), currentStepIndex := 0\<rparr>)"

definition previewNote :: "AudioService \<Rightarrow> string \<Rightarrow> AudioService" where
  "previewNote a note =
     (case synth a of
        None \<Rightarrow> a
      | Some s \<Rightarrow> a\<lparr>synth := Some (triggerAttackRelease s [note] (eighths 1))\<rparr>)"

section \<open>The melody view (components/MonoMelody.tsx)\<close>

text \<open>
  The state of the view that the transport buttons touch, and the audio service (a
  module-level singleton). \<open>currentStep\<close> is \<open>-1\<close> when no step is reported.
\<close>

record MonoMelody =
  isPlaying :: bool
  currentStep :: int
  audioService :: AudioService

definition handlePlayPause :: "MonoMelody \<Rightarrow> MonoMelody" where
  "handlePlayPause v =
     (let a = init (audioService v)
      in if isPlaying v then v\<lparr>audioService := pause a, isPlaying := False\<rparr>
         else v\<lparr>audioService := play a, isPlaying := True\<rparr>)"

definition handleStop :: "MonoMelody \<Rightarrow> MonoMelody" where
  "handleStop v = v\<lparr>audioService := stop (audioService v), isPlaying := False, currentStep := -1\<rparr>"

text \<open>One tick of the sequence: the service's callback, and the step it reports.\<close>

definition tick :: "MonoMelody \<Rightarrow> nat \<Rightarrow> MonoMelody" where
  "tick v stepIndex =
     (case sequenceCallback (audioService v) stepIndex of
        (a, None) \<Rightarrow> v\<lparr>audioService := a\<rparr>
      | (a, Some i) \<Rightarrow> v\<lparr>audioService := a, currentStep := int i\<rparr>)"

section \<open>The piano roll (PianoRoll)\<close>

subsection \<open>Timeline resolution (resolvedMelody)\<close>

text \<open>
  The \<open>for\<close> loop of \<open>resolvedMelody\<close>, from index \<open>i\<close> on, with the loop's two
  variables \<open>lastPitch\<close> and \<open>result\<close>. The bound is the module constant
  \<open>TOTAL_STEPS\<close> (32 in constants.ts); here and in the handlers below it is the
  parameter \<open>n\<close>, since the specification states its scenarios for a grid of 8 steps.
\<close>

function resolvedMelody_loop ::
  "nat \<Rightarrow> Melody \<Rightarrow> nat \<Rightarrow> token \<Rightarrow> token list \<Rightarrow> token list" where
  "resolvedMelody_loop n m i lastPitch result =
     (if i < n then
        (if js_get m i = Some SUSTAIN_TOKEN then
           resolvedMelody_loop n m (Suc i) lastPitch (js_set result i lastPitch)
         else if truthy (js_get m i) then
           resolvedMelody_loop n m (Suc i) (js_get m i) (js_set result i (js_get m i))
         else
           resolvedMelody_loop n m (Suc i) None (js_set result i None))
      else result)"
  by pat_completeness auto
termination
  by (relation "measure (\<lambda>(n, m, i, lastPitch, result). n - i)") auto

definition resolvedMelody :: "nat \<Rightarrow> Melody \<Rightarrow> token list" where
  "resolvedMelody n m = resolvedMelody_loop n m 0 None (replicate n None)"

subsection \<open>The specification's pass for the resolution\<close>

text \<open>
  The three kinds of slot, as the specification names them: the sustain marker, a concrete
  pitch, and empty.
\<close>

definition is_sustain :: "token \<Rightarrow> bool" where
  "is_sustain t = (t = Some SUSTAIN_TOKEN)"

definition is_pitch :: "token \<Rightarrow> bool" where
  "is_pitch t = (truthy t \<and> t \<noteq> Some SUSTAIN_TOKEN)"

definition is_empty :: "token \<Rightarrow> bool" where
  "is_empty t = (\<not> truthy t)"

text \<open>
  The single left-to-right pass of the specification, with its current-head variable: a
  sustain slot outputs the head, a pitch becomes the head and is output, an empty slot
  clears the head and outputs empty.
\<close>

fun resolve_pass :: "token \<Rightarrow> Melody \<Rightarrow> token list" where
  "resolve_pass head [] = []"
| "resolve_pass head (t # ts) =
     (if is_sustain t then head # resolve_pass head ts
      else if is_pitch t then t # resolve_pass t ts
      else None # resolve_pass None ts)"

definition resolve_spec :: "Melody \<Rightarrow> token list" where
  "resolve_spec m = resolve_pass None m"

subsection \<open>Allowed pitches (isNoteAllowed)\<close>

definition isDigit :: "char \<Rightarrow> bool" where
  "isDigit c = (c \<in> set ''0123456789'')"

text \<open>\<open>pitch.replace(/[0-9]/g, '')\<close>\<close>

definition noteName :: "string \<Rightarrow> string" where
  "noteName p = filter (\<lambda>c. \<not> isDigit c) p"

definition isNoteAllowed :: "NoteMode \<Rightarrow> Progression \<Rightarrow> string \<Rightarrow> nat \<Rightarrow> bool" where
  "isNoteAllowed nm prog p stepIndex =
     (if nm = chromatic then True
      else if nm = scale then noteName p \<in> set SCALE_NOTES
      else (case js_index prog (stepIndex div STEPS_PER_BAR) of
              None \<Rightarrow> False
            | Some c \<Rightarrow> noteName p \<in> set (chord_notes c)))"

subsection \<open>The gesture state and the pointer events\<close>

datatype DragMode = create | resize

record DragState =
  isActive :: bool
  startStep :: nat
  pitch :: string
  mode :: DragMode
  hasMoved :: bool

text \<open>The calls the component makes outward: its \<open>onSetMelody\<close> prop and the audio preview.\<close>

datatype Call = onSetMelody Melody | audio_previewNote string

text \<open>
  The props and the state of the component. The parent passes its \<open>setMelody\<close> as
  \<open>onSetMelody\<close>, so a call replaces the \<open>melody\<close> prop; \<open>calls\<close> logs the outward
  calls in order. \<open>dragMetrics\<close> records whether the grid metrics are cached, and
  \<open>pointerCapture\<close> whether the container holds the pointer. Each handler sees the
  state of the last render and its updates are applied as one step.
\<close>

record PianoRoll =
  progression :: Progression
  melody :: Melody
  noteMode :: NoteMode
  dragState :: "DragState option"
  dragMetrics :: bool
  pointerCapture :: bool
  calls :: "Call list"

datatype PointerType = mouse | touch | pen

text \<open>
  A pointer-down event, as the handler reads it: the pointer type, the cell found by
  \<open>target.closest('[data-step]')\<close> with its \<open>data-step\<close> and \<open>data-pitch\<close>, and
  whether the first cell of the grid was found for the metrics. The container is mounted
  whenever its handlers run.
\<close>

record PointerDown =
  pointerType :: PointerType
  cell :: "(nat \<times> string) option"
  firstCell :: bool

text \<open>
  A pointer-move event: \<open>column\<close> is \<open>Math.floor(relativeX / stepWidth)\<close> of the cached
  metrics, for a cell of positive width (the floating-point division is outside the
  model), \<open>under\<close> the \<open>data-step\<close> of the cell under the pointer, if there is one.
\<close>

record PointerMove =
  column :: int
  under :: "nat option"

subsection \<open>Pointer down\<close>

text \<open>The backward walk to the head of the run (lines 128-132).\<close>

fun head_walk :: "Melody \<Rightarrow> nat \<Rightarrow> nat" where
  "head_walk m 0 = 0"
| "head_walk m (Suc k) =
     (if js_get m (Suc k) = Some SUSTAIN_TOKEN then head_walk m k else Suc k)"

definition handleGridPointerDown :: "nat \<Rightarrow> PianoRoll \<Rightarrow> PointerDown \<Rightarrow> PianoRoll" where
  "handleGridPointerDown n st e =
     (let st1 = (if pointerType e = mouse then st\<lparr>pointerCapture := True\<rparr> else st)
      in case cell e of
           None \<Rightarrow> st1
         | Some (step, p) \<Rightarrow>
             let st2 = st1\<lparr>dragMetrics := firstCell e\<rparr>
             in if \<not> isNoteAllowed (noteMode st) (progression st) p step then st2
                else if js_get (resolvedMelody n (melody st)) step = Some p then
                  st2\<lparr>dragState := Some \<lparr>isActive = True, startStep = head_walk (melody st) step,
                         pitch = p, mode = resize, hasMoved = False\<rparr>\<rparr>
                else
                  st2\<lparr>melody := js_set (melody st) step (Some p),
                      calls := calls st @ [onSetMelody (js_set (melody st) step (Some p)),
                                           audio_previewNote p],
                      dragState := Some \<lparr>isActive = True, startStep = step,
                         pitch = p, mode = create, hasMoved = False\<rparr>\<rparr>)"

subsection \<open>Pointer move\<close>

text \<open>The step of a move (lines 156-168); \<open>-1\<close> when no cell is under the pointer.\<close>

definition pointerStep :: "nat \<Rightarrow> bool \<Rightarrow> PointerMove \<Rightarrow> int" where
  "pointerStep n metrics e =
     (if metrics then max 0 (min (int n - 1) (column e))
      else (case under e of None \<Rightarrow> -1 | Some s \<Rightarrow> int s))"

text \<open>The loop that writes the sustain markers (lines 180-186); it breaks at the first
  step where the pitch is not allowed.\<close>

function sustain_loop :: "(nat \<Rightarrow> bool) \<Rightarrow> nat \<Rightarrow> nat \<Rightarrow> Melody \<Rightarrow> Melody" where
  "sustain_loop allowed step i newMelody =
     (if i \<le> step then
        (if allowed i then
           sustain_loop allowed step (Suc i) (js_set newMelody i (Some SUSTAIN_TOKEN))
         else newMelody)
      else newMelody)"
  by pat_completeness auto
termination
  by (relation "measure (\<lambda>(allowed, step, i, newMelody). Suc step - i)") auto

text \<open>The loop that clears the sustain markers left over (lines 188-194, and again
  205-211 in the pointer-up handler); it breaks at the first slot that is no marker.\<close>

function clear_loop :: "nat \<Rightarrow> nat \<Rightarrow> Melody \<Rightarrow> Melody" where
  "clear_loop n i newMelody =
     (if i < n then
        (if js_get newMelody i = Some SUSTAIN_TOKEN then
           clear_loop n (Suc i) (js_set newMelody i None)
         else newMelody)
      else newMelody)"
  by pat_completeness auto
termination
  by (relation "measure (\<lambda>(n, i, newMelody). n - i)") auto

definition moveMelody :: "nat \<Rightarrow> PianoRoll \<Rightarrow> DragState \<Rightarrow> nat \<Rightarrow> Melody" where
  "moveMelody n st d step =
     clear_loop n (step + 1)
       (sustain_loop (isNoteAllowed (noteMode st) (progression st) (pitch d)) step
          (startStep d + 1)
          (js_set (melody st) (startStep d) (Some (pitch d))))"

definition handleGridPointerMove :: "nat \<Rightarrow> PianoRoll \<Rightarrow> PointerMove \<Rightarrow> PianoRoll" where
  "handleGridPointerMove n st e =
     (case dragState st of
        None \<Rightarrow> st
      | Some d \<Rightarrow>
          if \<not> isActive d then st
          else
            let step = pointerStep n (dragMetrics st) e
            in if step = -1 then st
               else
                 let st1 = st\<lparr>dragState := Some (d\<lparr>hasMoved := True\<rparr>)\<rparr>
                 in if step < int (startStep d) then st1
                    else st1\<lparr>melody := moveMelody n st d (nat step),
                             calls := calls st @ [onSetMelody (moveMelody n st d (nat step))]\<rparr>)"

subsection \<open>Pointer up and pointer leave\<close>

definition tapMelody :: "nat \<Rightarrow> PianoRoll \<Rightarrow> DragState \<Rightarrow> Melody" where
  "tapMelody n st d =
     clear_loop n (startStep d + 1) (js_set (melody st) (startStep d) None)"

definition handleGridPointerUp :: "nat \<Rightarrow> PianoRoll \<Rightarrow> PianoRoll" where
  "handleGridPointerUp n st =
     (let st1 =
        (case dragState st of
           None \<Rightarrow> st
         | Some d \<Rightarrow>
             if mode d = resize \<and> \<not> hasMoved d then
               st\<lparr>melody := tapMelody n st d, calls := calls st @ [onSetMelody (tapMelody n st d)]\<rparr>
             else st)
      in st1\<lparr>dragState := None, dragMetrics := False, pointerCapture := False\<rparr>)"

subsection \<open>Sequences of pointer events\<close>

datatype PointerEvent = Down PointerDown | Move PointerMove | Up

fun handle :: "nat \<Rightarrow> PianoRoll \<Rightarrow> PointerEvent \<Rightarrow> PianoRoll" where
  "handle n st (Down e) = handleGridPointerDown n st e"
| "handle n st (Move e) = handleGridPointerMove n st e"
| "handle n st Up = handleGridPointerUp n st"

definition gesture :: "nat \<Rightarrow> PianoRoll \<Rightarrow> PointerEvent list \<Rightarrow> PianoRoll" where
  "gesture n st es = foldl (handle n) st es"

text \<open>An event of a gesture on the row of pitch \<open>p\<close>: every pointer-down hits a cell of
  that row.\<close>

definition on_row :: "string \<Rightarrow> PointerEvent \<Rightarrow> bool" where
  "on_row p e =
     (case e of
        Down d \<Rightarrow> (case cell d of None \<Rightarrow> False | Some (s, q) \<Rightarrow> q = p)
      | _ \<Rightarrow> True)"

text \<open>The component at rest, as first rendered with the given props.\<close>

definition idle :: "NoteMode \<Rightarrow> Progression \<Rightarrow> Melody \<Rightarrow> PianoRoll" where
  "idle nm prog m =
     \<lparr>progression = prog, melody = m, noteMode = nm, dragState = None,
      dragMetrics = False, pointerCapture = False, calls = []\<rparr>"

section \<open>Properties of the array operations\<close>

declare resolvedMelody_loop.simps [simp del]
declare durationSteps_loop.simps [simp del]
declare sustain_loop.simps [simp del]
declare clear_loop.simps [simp del]

lemma length_js_set: "length (js_set xs i v) = max (length xs) (Suc i)"
  by (auto simp: js_set_def)

lemma js_get_js_set: "js_get (js_set xs i v) j = (if j = i then v else js_get xs j)"
  by (auto simp: js_get_def js_set_def nth_append)


section \<open>The loops of the gesture handlers, slot by slot\<close>

lemma js_get_clear_loop:
  "js_get (clear_loop n i m) k =
     (if i \<le> k \<and> k < n \<and> (\<forall>j. i \<le> j \<and> j \<le> k \<longrightarrow> js_get m j = Some SUSTAIN_TOKEN)
      then None else js_get m k)"
proof (induction n i m rule: clear_loop.induct)
  case (1 n i m)
  show ?case
  proof (cases "i < n \<and> js_get m i = Some SUSTAIN_TOKEN")
    case False
    then have "clear_loop n i m = m"
      by (auto simp: clear_loop.simps [of n i m])
    moreover have "(i \<le> k \<and> k < n \<and> (\<forall>j. i \<le> j \<and> j \<le> k \<longrightarrow> js_get m j = Some SUSTAIN_TOKEN)) = False"
      using False by (metis le_refl less_le_trans not_le order.strict_trans2)
    ultimately show ?thesis by (simp only: if_False)
  next
    case True
    then have unf: "clear_loop n i m = clear_loop n (Suc i) (js_set m i None)"
      by (simp add: clear_loop.simps [of n i m])
    have IH: "js_get (clear_loop n (Suc i) (js_set m i None)) k =
       (if Suc i \<le> k \<and> k < n \<and>
           (\<forall>j. Suc i \<le> j \<and> j \<le> k \<longrightarrow> js_get (js_set m i None) j = Some SUSTAIN_TOKEN)
        then None else js_get (js_set m i None) k)"
      using "1.IH" True by simp
    have run: "(\<forall>j. Suc i \<le> j \<and> j \<le> k \<longrightarrow> js_get (js_set m i None) j = Some SUSTAIN_TOKEN)
           \<longleftrightarrow> (\<forall>j. Suc i \<le> j \<and> j \<le> k \<longrightarrow> js_get m j = Some SUSTAIN_TOKEN)"
      by (auto simp: js_get_js_set)
    have whole: "i \<le> k \<Longrightarrow> (\<forall>j. i \<le> j \<and> j \<le> k \<longrightarrow> js_get m j = Some SUSTAIN_TOKEN)
           \<longleftrightarrow> (\<forall>j. Suc i \<le> j \<and> j \<le> k \<longrightarrow> js_get m j = Some SUSTAIN_TOKEN)"
      using True by (metis Suc_leD Suc_leI le_neq_implies_less)
    consider "k < i" | "k = i" | "i < k" by linarith
    then show ?thesis
    proof cases
      case 1
      then show ?thesis unfolding unf IH by (simp add: js_get_js_set)
    next
      case 2
      then show ?thesis unfolding unf IH using True by (simp add: js_get_js_set)
    next
      case 3
      then have "i \<le> k" "Suc i \<le> k" "k \<noteq> i" by simp_all
      then show ?thesis
        unfolding unf IH run using whole by (simp add: js_get_js_set)
    qed
  qed
qed

lemma length_clear_loop: "length (clear_loop n i m) = length m"
proof (induction n i m rule: clear_loop.induct)
  case (1 n i m)
  show ?case
  proof (cases "i < n \<and> js_get m i = Some SUSTAIN_TOKEN")
    case False
    then show ?thesis by (auto simp: clear_loop.simps [of n i m])
  next
    case True
    then have "i < length m"
      by (auto simp: js_get_def split: if_splits)
    then show ?thesis
      using True "1.IH" by (simp add: clear_loop.simps [of n i m] length_js_set)
  qed
qed

lemma js_get_sustain_loop:
  "js_get (sustain_loop allowed step i m) k =
     (if i \<le> k \<and> k \<le> step \<and> (\<forall>j. i \<le> j \<and> j \<le> k \<longrightarrow> allowed j)
      then Some SUSTAIN_TOKEN else js_get m k)"
proof (induction allowed step i m rule: sustain_loop.induct)
  case (1 allowed step i m)
  show ?case
  proof (cases "i \<le> step \<and> allowed i")
    case False
    then have "sustain_loop allowed step i m = m"
      by (auto simp: sustain_loop.simps [of allowed step i m])
    moreover have "(i \<le> k \<and> k \<le> step \<and> (\<forall>j. i \<le> j \<and> j \<le> k \<longrightarrow> allowed j)) = False"
      using False by (metis le_refl le_trans)
    ultimately show ?thesis by (simp only: if_False)
  next
    case True
    then have unf: "sustain_loop allowed step i m =
        sustain_loop allowed step (Suc i) (js_set m i (Some SUSTAIN_TOKEN))"
      by (simp add: sustain_loop.simps [of allowed step i m])
    have IH: "js_get (sustain_loop allowed step (Suc i) (js_set m i (Some SUSTAIN_TOKEN))) k =
       (if Suc i \<le> k \<and> k \<le> step \<and> (\<forall>j. Suc i \<le> j \<and> j \<le> k \<longrightarrow> allowed j)
        then Some SUSTAIN_TOKEN else js_get (js_set m i (Some SUSTAIN_TOKEN)) k)"
      using "1.IH" True by simp
    have whole: "i \<le> k \<Longrightarrow> (\<forall>j. i \<le> j \<and> j \<le> k \<longrightarrow> allowed j)
           \<longleftrightarrow> (\<forall>j. Suc i \<le> j \<and> j \<le> k \<longrightarrow> allowed j)"
      using True by (metis Suc_leD Suc_leI le_neq_implies_less)
    consider "k < i" | "k = i" | "i < k" by linarith
    then show ?thesis
    proof cases
      case 1
      then show ?thesis unfolding unf IH by (simp add: js_get_js_set)
    next
      case 2
      have "\<forall>j. i \<le> j \<and> j \<le> i \<longrightarrow> allowed j"
        using True by (auto dest: le_antisym)
      with 2 show ?thesis unfolding unf IH using True by (simp add: js_get_js_set)
    next
      case 3
      then have "i \<le> k" "Suc i \<le> k" "k \<noteq> i" by simp_all
      moreover have w: "(\<forall>j. i \<le> j \<and> j \<le> k \<longrightarrow> allowed j)
           = (\<forall>j. Suc i \<le> j \<and> j \<le> k \<longrightarrow> allowed j)"
        using whole \<open>i \<le> k\<close> by simp
      ultimately show ?thesis
        unfolding unf IH w by (auto simp: js_get_js_set)
    qed
  qed
qed

lemma length_sustain_loop:
  "step < length m \<Longrightarrow> length (sustain_loop allowed step i m) = length m"
proof (induction allowed step i m rule: sustain_loop.induct)
  case (1 allowed step i m)
  show ?case
  proof (cases "i \<le> step \<and> allowed i")
    case False
    then show ?thesis
      by (auto simp: sustain_loop.simps [of allowed step i m])
  next
    case True
    then have l: "length (js_set m i (Some SUSTAIN_TOKEN)) = length m"
      using "1.prems" by (simp add: length_js_set)
    then show ?thesis
      using True "1.IH" "1.prems" by (simp add: sustain_loop.simps [of allowed step i m])
  qed
qed

lemma length_moveMelody:
  "startStep d \<le> step \<Longrightarrow> step < length (melody st) \<Longrightarrow>
   length (moveMelody n st d step) = length (melody st)"
  by (simp add: moveMelody_def length_clear_loop length_sustain_loop length_js_set)

lemma js_get_tapMelody:
  "js_get (tapMelody n st d) i =
     (if i = startStep d \<or>
         (startStep d < i \<and> i < n \<and>
          (\<forall>j. startStep d < j \<and> j \<le> i \<longrightarrow> js_get (melody st) j = Some SUSTAIN_TOKEN))
      then None else js_get (melody st) i)"
proof -
  let ?s = "startStep d"
  let ?m1 = "js_set (melody st) ?s None"
  have run: "(\<forall>j. Suc ?s \<le> j \<and> j \<le> i \<longrightarrow> js_get ?m1 j = Some SUSTAIN_TOKEN)
         \<longleftrightarrow> (\<forall>j. ?s < j \<and> j \<le> i \<longrightarrow> js_get (melody st) j = Some SUSTAIN_TOKEN)"
    by (auto simp: js_get_js_set Suc_le_eq)
  show ?thesis
    unfolding tapMelody_def Suc_eq_plus1 [symmetric] js_get_clear_loop run
    by (auto simp: js_get_js_set Suc_le_eq)
qed

lemma js_get_moveMelody:
  assumes "startStep d \<le> step"
  shows "js_get (moveMelody n st d step) i =
     (if i = startStep d then Some (pitch d)
      else if startStep d < i \<and> i \<le> step \<and>
              (\<forall>j. startStep d < j \<and> j \<le> i \<longrightarrow>
                 isNoteAllowed (noteMode st) (progression st) (pitch d) j)
      then Some SUSTAIN_TOKEN
      else if step < i \<and> i < n \<and>
              (\<forall>j. step < j \<and> j \<le> i \<longrightarrow> js_get (melody st) j = Some SUSTAIN_TOKEN)
      then None
      else js_get (melody st) i)"
proof -
  let ?s = "startStep d"
  let ?al = "isNoteAllowed (noteMode st) (progression st) (pitch d)"
  let ?m1 = "js_set (melody st) ?s (Some (pitch d))"
  let ?m2 = "sustain_loop ?al step (Suc ?s) ?m1"
  have m2: "js_get ?m2 k =
      (if k = ?s then Some (pitch d)
       else if ?s < k \<and> k \<le> step \<and> (\<forall>j. ?s < j \<and> j \<le> k \<longrightarrow> ?al j) then Some SUSTAIN_TOKEN
       else js_get (melody st) k)" for k
    unfolding js_get_sustain_loop by (auto simp: js_get_js_set Suc_le_eq)
  have after: "js_get ?m2 j = js_get (melody st) j" if "step < j" for j
    using that assms by (simp add: m2)
  have run: "(\<forall>j. Suc step \<le> j \<and> j \<le> i \<longrightarrow> js_get ?m2 j = Some SUSTAIN_TOKEN)
         \<longleftrightarrow> (\<forall>j. step < j \<and> j \<le> i \<longrightarrow> js_get (melody st) j = Some SUSTAIN_TOKEN)"
    using after by (auto simp: Suc_le_eq)
  have "js_get (moveMelody n st d step) i =
      (if Suc step \<le> i \<and> i < n \<and>
          (\<forall>j. step < j \<and> j \<le> i \<longrightarrow> js_get (melody st) j = Some SUSTAIN_TOKEN)
       then None else js_get ?m2 i)"
    unfolding moveMelody_def Suc_eq_plus1 [symmetric] js_get_clear_loop run ..
  also have "\<dots> =
     (if i = ?s then Some (pitch d)
      else if ?s < i \<and> i \<le> step \<and> (\<forall>j. ?s < j \<and> j \<le> i \<longrightarrow> ?al j)
      then Some SUSTAIN_TOKEN
      else if step < i \<and> i < n \<and>
              (\<forall>j. step < j \<and> j \<le> i \<longrightarrow> js_get (melody st) j = Some SUSTAIN_TOKEN)
      then None
      else js_get (melody st) i)"
    using assms unfolding m2 by (auto simp: Suc_le_eq)
  finally show ?thesis .
qed

section \<open>The resolution is the specification's pass\<close>

lemma js_set_in_range: "i < length xs \<Longrightarrow> js_set xs i v = xs[i := v]"
  by (simp add: js_set_def)

lemma resolvedMelody_loop_pass:
  "length result = n \<Longrightarrow> i \<le> n \<Longrightarrow>
   resolvedMelody_loop n m i lastPitch result =
     take i result @ resolve_pass lastPitch (map (js_get m) [i..<n])"
proof (induction n m i lastPitch result rule: resolvedMelody_loop.induct)
  case (1 n m i lastPitch result)
  show ?case
  proof (cases "i < n")
    case False
    with "1.prems" have "i = n" by simp
    then show ?thesis
      using "1.prems" by (simp add: resolvedMelody_loop.simps [of n m n])
  next
    case True
    then have upt: "[i..<n] = i # [Suc i..<n]"
      by (simp add: upt_conv_Cons)
    have tk: "take (Suc i) (js_set result i v) = take i result @ [v]" for v
      using True "1.prems"
      by (simp add: js_set_in_range take_Suc_conv_app_nth)
    have len: "length (js_set result i v) = n" for v
      using True "1.prems" by (simp add: js_set_in_range)
    show ?thesis
    proof (cases "js_get m i = Some SUSTAIN_TOKEN")
      case sus: True
      have "resolvedMelody_loop n m i lastPitch result =
            resolvedMelody_loop n m (Suc i) lastPitch (js_set result i lastPitch)"
        using True sus by (simp add: resolvedMelody_loop.simps [of n m i])
      also have "\<dots> = take (Suc i) (js_set result i lastPitch) @
                        resolve_pass lastPitch (map (js_get m) [Suc i..<n])"
        using "1.IH"(1) [OF True sus len] True by simp
      finally show ?thesis
        using sus by (simp add: tk upt is_sustain_def)
    next
      case nsus: False
      show ?thesis
      proof (cases "truthy (js_get m i)")
        case tr: True
        have "resolvedMelody_loop n m i lastPitch result =
              resolvedMelody_loop n m (Suc i) (js_get m i) (js_set result i (js_get m i))"
          using True nsus tr by (simp add: resolvedMelody_loop.simps [of n m i])
        also have "\<dots> = take (Suc i) (js_set result i (js_get m i)) @
                          resolve_pass (js_get m i) (map (js_get m) [Suc i..<n])"
          using "1.IH"(2) [OF True nsus tr len] True by simp
        finally show ?thesis
          using nsus tr by (simp add: tk upt is_sustain_def is_pitch_def)
      next
        case ntr: False
        have "resolvedMelody_loop n m i lastPitch result =
              resolvedMelody_loop n m (Suc i) None (js_set result i None)"
          using True nsus ntr by (simp add: resolvedMelody_loop.simps [of n m i])
        also have "\<dots> = take (Suc i) (js_set result i None) @
                          resolve_pass None (map (js_get m) [Suc i..<n])"
          using "1.IH"(3) [OF True nsus ntr len] True by simp
        finally show ?thesis
          using nsus ntr by (simp add: tk upt is_sustain_def is_pitch_def)
      qed
    qed
  qed
qed

lemma resolvedMelody_pass: "resolvedMelody n m = resolve_pass None (map (js_get m) [0..<n])"
  by (simp add: resolvedMelody_def resolvedMelody_loop_pass)

lemma map_js_get_all: "map (js_get m) [0..<length m] = m"
  by (rule nth_equalityI) (simp_all add: js_get_def)

lemma length_resolve_pass: "length (resolve_pass h ts) = length ts"
  by (induction ts arbitrary: h) auto

lemma resolve_pass_pitch:
  "i < length ts \<Longrightarrow> is_pitch (ts ! i) \<Longrightarrow> resolve_pass h ts ! i = ts ! i"
proof (induction ts arbitrary: h i)
  case Nil
  then show ?case by simp
next
  case (Cons t ts)
  then show ?case
    by (cases i) (auto simp: is_pitch_def is_sustain_def)
qed


lemma scenario_A:
  "resolvedMelody 8 [None, None, Some ''C4'', Some ''HOLD'', Some ''HOLD'', None, None, None]
     = [None, None, Some ''C4'', Some ''C4'', Some ''C4'', None, None, None]"
  by (simp add: resolvedMelody_pass resolve_spec_def is_sustain_def is_pitch_def truthy_def
      SUSTAIN_TOKEN_def js_get_def upt_rec [of _ "numeral _"] upt_rec [of _ "Suc _"])

lemma scenario_A_32:
  "resolvedMelody TOTAL_STEPS
     [None, None, Some ''C4'', Some ''HOLD'', Some ''HOLD'', None, None, None]
     = [None, None, Some ''C4'', Some ''C4'', Some ''C4''] @ replicate 27 None"
  by code_simp

lemma resolve_pass_entries:
  "h = None \<or> is_pitch h \<Longrightarrow> t \<in> set (resolve_pass h ts) \<Longrightarrow> t = None \<or> is_pitch t"
proof (induction ts arbitrary: h)
  case Nil
  then show ?case by simp
next
  case (Cons x xs)
  then show ?case
    by (auto split: if_splits)
qed

lemma resolve_pass_headless:
  "i < length ts \<Longrightarrow> k \<le> i \<Longrightarrow>
   (k = 0 \<and> h = None) \<or> (0 < k \<and> is_empty (ts ! (k - 1))) \<Longrightarrow>
   (\<forall>j. k \<le> j \<and> j \<le> i \<longrightarrow> is_sustain (ts ! j)) \<Longrightarrow>
   resolve_pass h ts ! i = None"
proof (induction ts arbitrary: h i k)
  case Nil
  then show ?case by simp
next
  case (Cons t ts)
  show ?case
  proof (cases i)
    case 0
    with Cons.prems show ?thesis by auto
  next
    case (Suc i')
    show ?thesis
    proof (cases k)
      case 0
      with Cons.prems have t: "is_sustain t" and h: "h = None" by auto
      have "resolve_pass None ts ! i' = None"
      proof (rule Cons.IH [of i' 0])
        show "i' < length ts" using Cons.prems(1) Suc by simp
        show "(0::nat) \<le> i'" by simp
        show "(0::nat) = 0 \<and> (None::token) = None \<or> 0 < (0::nat) \<and> is_empty (ts ! (0 - 1))" by simp
        show "\<forall>j. 0 \<le> j \<and> j \<le> i' \<longrightarrow> is_sustain (ts ! j)"
          using Cons.prems(4) 0 Suc by (metis Suc_le_mono le0 nth_Cons_Suc)
      qed
      with t h Suc show ?thesis by simp
    next
      case (Suc k')
      have rec: "resolve_pass h' ts ! i' = None" if "k' = 0 \<longrightarrow> h' = None" for h'
      proof (rule Cons.IH [of i' k'])
        show "i' < length ts" using Cons.prems(1) \<open>i = Suc i'\<close> by simp
        show "k' \<le> i'" using Cons.prems(2) Suc \<open>i = Suc i'\<close> by simp
        show "k' = 0 \<and> h' = None \<or> 0 < k' \<and> is_empty (ts ! (k' - 1))"
          using Cons.prems(3) Suc that by (cases k') auto
        show "\<forall>j. k' \<le> j \<and> j \<le> i' \<longrightarrow> is_sustain (ts ! j)"
          using Cons.prems(4) Suc \<open>i = Suc i'\<close> by (metis Suc_le_mono nth_Cons_Suc)
      qed
      have emp: "k' = 0 \<Longrightarrow> is_empty t"
        using Cons.prems(3) Suc by auto
      have ne: "is_empty t \<Longrightarrow> \<not> is_sustain t \<and> \<not> is_pitch t"
        by (auto simp: is_empty_def is_sustain_def is_pitch_def truthy_def SUSTAIN_TOKEN_def)
      show ?thesis
        using \<open>i = Suc i'\<close> rec emp ne by (cases "k' = 0") auto
    qed
  qed
qed

lemma length_resolvedMelody: "length (resolvedMelody n m) = n"
  by (simp add: resolvedMelody_pass length_resolve_pass)

text \<open>
  Claim C1. On a timeline of length \<open>TOTAL_STEPS\<close>, \<open>resolvedMelody\<close> is the single
  left-to-right pass with a current-head variable that starts empty; hence a slot holding
  a concrete pitch resolves to that pitch, and the 8-step timeline of Scenario A resolves
  as the specification says. With the source's own \<open>TOTAL_STEPS\<close> (32) the same eight
  slots resolve in the same way and the slots past the end of the array resolve to empty.
\<close>

theorem resolvedMelody_single_pass:
  "(length m = n \<longrightarrow> resolvedMelody n m = resolve_spec m)
   \<and> (length m = n \<and> i < n \<and> is_pitch (m ! i) \<longrightarrow> resolvedMelody n m ! i = m ! i)
   \<and> resolvedMelody 8 [None, None, Some ''C4'', Some ''HOLD'', Some ''HOLD'', None, None, None]
       = [None, None, Some ''C4'', Some ''C4'', Some ''C4'', None, None, None]
   \<and> resolvedMelody TOTAL_STEPS
       [None, None, Some ''C4'', Some ''HOLD'', Some ''HOLD'', None, None, None]
       = [None, None, Some ''C4'', Some ''C4'', Some ''C4''] @ replicate 27 None"
proof (intro conjI impI)
  assume "length m = n"
  then show "resolvedMelody n m = resolve_spec m"
    using map_js_get_all [of m] by (simp add: resolvedMelody_pass resolve_spec_def)
next
  assume a: "length m = n \<and> i < n \<and> is_pitch (m ! i)"
  then have "resolvedMelody n m = resolve_pass None m"
    using map_js_get_all [of m] by (simp add: resolvedMelody_pass)
  with a show "resolvedMelody n m ! i = m ! i"
    by (simp add: resolve_pass_pitch)
next
  show "resolvedMelody 8 [None, None, Some ''C4'', Some ''HOLD'', Some ''HOLD'', None, None, None]
       = [None, None, Some ''C4'', Some ''C4'', Some ''C4'', None, None, None]"
    by (rule scenario_A)
next
  show "resolvedMelody TOTAL_STEPS
       [None, None, Some ''C4'', Some ''HOLD'', Some ''HOLD'', None, None, None]
       = [None, None, Some ''C4'', Some ''C4'', Some ''C4''] @ replicate 27 None"
    by (rule scenario_A_32)
qed

theorem resolvedMelody_single_pass_witness:
  "resolvedMelody 3 [Some ''D4'', Some ''HOLD'', None] = resolve_spec [Some ''D4'', Some ''HOLD'', None]
   \<and> resolvedMelody 3 [Some ''D4'', Some ''HOLD'', None] ! 0 = Some ''D4''"
proof -
  let ?m = "[Some ''D4'', Some ''HOLD'', None]"
  have l: "length ?m = 3"
    by simp
  have p: "length ?m = 3 \<and> (0::nat) < 3 \<and> is_pitch (?m ! 0)"
    by (simp add: is_pitch_def truthy_def SUSTAIN_TOKEN_def)
  have "resolvedMelody 3 ?m = resolve_spec ?m" and "resolvedMelody 3 ?m ! 0 = ?m ! 0"
    using resolvedMelody_single_pass [of ?m 3 0] l p by blast+
  then show ?thesis
    by simp
qed

text \<open>
  Claim C10. The resolved timeline never holds the sustain marker: each entry is empty or
  a concrete pitch. A run of sustain markers from \<open>k\<close> to \<open>i\<close> that starts the timeline or
  follows an empty slot resolves to empty at \<open>i\<close>.
\<close>

theorem resolvedMelody_no_sustain:
  "(\<forall>t \<in> set (resolvedMelody n m). t \<noteq> Some SUSTAIN_TOKEN \<and> (t = None \<or> is_pitch t))
   \<and> (k \<le> i \<and> i < n \<and> (k = 0 \<or> is_empty (js_get m (k - 1)))
        \<and> (\<forall>j. k \<le> j \<and> j \<le> i \<longrightarrow> is_sustain (js_get m j))
      \<longrightarrow> resolvedMelody n m ! i = None)"
proof (intro conjI ballI impI)
  fix t assume "t \<in> set (resolvedMelody n m)"
  then have "t = None \<or> is_pitch t"
    using resolve_pass_entries [of None t] by (simp add: resolvedMelody_pass)
  then show "t \<noteq> Some SUSTAIN_TOKEN"  by (auto simp: is_pitch_def)
  show "t = None \<or> is_pitch t" by fact
next
  assume a: "k \<le> i \<and> i < n \<and> (k = 0 \<or> is_empty (js_get m (k - 1)))
        \<and> (\<forall>j. k \<le> j \<and> j \<le> i \<longrightarrow> is_sustain (js_get m j))"
  let ?ts = "map (js_get m) [0..<n]"
  have "resolve_pass None ?ts ! i = None"
  proof (rule resolve_pass_headless [of i ?ts k])
    show "i < length ?ts" using a by simp
    show "k \<le> i" using a by simp
    show "k = 0 \<and> (None::token) = None \<or> 0 < k \<and> is_empty (?ts ! (k - 1))"
      using a by (cases k) auto
    show "\<forall>j. k \<le> j \<and> j \<le> i \<longrightarrow> is_sustain (?ts ! j)"
      using a by auto
  qed
  then show "resolvedMelody n m ! i = None"
    by (simp add: resolvedMelody_pass)
qed

theorem resolvedMelody_no_sustain_witness:
  "Some ''HOLD'' \<notin> set (resolvedMelody 4 [Some ''HOLD'', Some ''G4'', None, Some ''HOLD''])
   \<and> resolvedMelody 4 [Some ''HOLD'', Some ''G4'', None, Some ''HOLD''] ! 3 = None
   \<and> resolvedMelody 4 [Some ''HOLD'', Some ''G4'', None, Some ''HOLD''] ! 0 = None"
proof -
  let ?m = "[Some ''HOLD'', Some ''G4'', None, Some ''HOLD'']"
  have s3: "\<forall>j. (3::nat) \<le> j \<and> j \<le> 3 \<longrightarrow> is_sustain (js_get ?m j)"
    by (auto simp: is_sustain_def js_get_def SUSTAIN_TOKEN_def)
  have s0: "\<forall>j. (0::nat) \<le> j \<and> j \<le> 0 \<longrightarrow> is_sustain (js_get ?m j)"
    by (auto simp: is_sustain_def js_get_def SUSTAIN_TOKEN_def)
  have e: "is_empty (js_get ?m (3 - 1))"
    by (simp add: is_empty_def js_get_def truthy_def)
  show ?thesis
    using resolvedMelody_no_sustain [of 4 ?m 3 3] resolvedMelody_no_sustain [of 4 ?m 0 0] s3 s0 e
    by (auto simp: SUSTAIN_TOKEN_def)
qed

section \<open>Allowed pitches\<close>

lemma isNoteAllowed_DEFAULT_step10:
  "isNoteAllowed chord DEFAULT_PROGRESSION ''A4'' 10 \<and> \<not> isNoteAllowed chord DEFAULT_PROGRESSION ''G4'' 10"
  by code_simp

text \<open>
  Claim C5. \<open>isNoteAllowed\<close> is true in chromatic mode; in scale mode it holds iff the
  pitch without its digits is one of C, D, E, F, G, A, B; in chord mode it looks up the
  progression at \<open>stepIndex div STEPS_PER_BAR\<close>, is false when that entry is absent, and
  otherwise holds iff the pitch class is one of the chord's notes. With 8 steps per bar,
  step 10 of a four-bar progression uses the entry at index 1.
\<close>

theorem isNoteAllowed_by_mode:
  "isNoteAllowed chromatic prog p s
   \<and> (isNoteAllowed scale prog p s \<longleftrightarrow>
        filter (\<lambda>c. c \<notin> set ''0123456789'') p \<in> {''C'', ''D'', ''E'', ''F'', ''G'', ''A'', ''B''})
   \<and> (isNoteAllowed chord prog p s \<longleftrightarrow>
        s div STEPS_PER_BAR < length prog \<and>
        filter (\<lambda>c. c \<notin> set ''0123456789'') p \<in> set (chord_notes (prog ! (s div STEPS_PER_BAR))))
   \<and> (\<not> s div STEPS_PER_BAR < length prog \<longrightarrow> \<not> isNoteAllowed chord prog p s)
   \<and> STEPS_PER_BAR = 8
   \<and> (length prog = 4 \<longrightarrow>
        (isNoteAllowed chord prog p 10 \<longleftrightarrow>
           filter (\<lambda>c. c \<notin> set ''0123456789'') p \<in> set (chord_notes (prog ! 1))))"
proof -
  have nn: "noteName p = filter (\<lambda>c. c \<notin> set ''0123456789'') p"
    by (simp add: noteName_def isDigit_def)
  have ten: "(10::nat) div STEPS_PER_BAR = 1"
    by (simp add: STEPS_PER_BAR_def)
  show ?thesis
    unfolding isNoteAllowed_def nn js_index_def ten
    by (simp add: SCALE_NOTES_def STEPS_PER_BAR_def)
qed

theorem isNoteAllowed_by_mode_witness:
  "isNoteAllowed chord DEFAULT_PROGRESSION ''C4'' 10
   \<and> \<not> isNoteAllowed chord DEFAULT_PROGRESSION ''G4'' 10
   \<and> \<not> isNoteAllowed chord DEFAULT_PROGRESSION ''C4'' 32"
proof -
  have l: "length DEFAULT_PROGRESSION = 4"
    by (simp add: DEFAULT_PROGRESSION_def)
  have n1: "chord_notes (DEFAULT_PROGRESSION ! Suc 0) = [''A'', ''C'', ''E'']"
    by (simp add: DEFAULT_PROGRESSION_def CHORDS_C_MAJOR_def)
  have out: "\<not> 32 div STEPS_PER_BAR < length DEFAULT_PROGRESSION"
    by (simp add: l STEPS_PER_BAR_def)
  show ?thesis
    using isNoteAllowed_by_mode [of DEFAULT_PROGRESSION "''C4''" 32]
      isNoteAllowed_by_mode [of DEFAULT_PROGRESSION "''G4''" 32] l out
    by (simp add: n1)
qed

section \<open>Pointer-down on a cell that is not allowed\<close>

lemma noteName_C_sharp: "\<not> isNoteAllowed scale prog ''C#4'' s"
  by (simp add: isNoteAllowed_def noteName_def isDigit_def SCALE_NOTES_def)

lemma down_disallowed:
  "cell e = Some (s, p) \<Longrightarrow> \<not> isNoteAllowed (noteMode st) (progression st) p s \<Longrightarrow>
   melody (handleGridPointerDown n st e) = melody st
   \<and> dragState (handleGridPointerDown n st e) = dragState st
   \<and> calls (handleGridPointerDown n st e) = calls st
   \<and> noteMode (handleGridPointerDown n st e) = noteMode st"
  by (simp add: handleGridPointerDown_def Let_def)

lemma idle_step:
  assumes "noteMode st = scale" "dragState st = None" "on_row ''C#4'' e"
  shows "noteMode (handle n st e) = scale \<and> dragState (handle n st e) = None
         \<and> melody (handle n st e) = melody st \<and> calls (handle n st e) = calls st"
proof (cases e)
  case (Down d)
  with assms(3) obtain s where c: "cell d = Some (s, ''C#4'')"
    by (auto simp: on_row_def split: option.splits)
  have "\<not> isNoteAllowed (noteMode st) (progression st) ''C#4'' s"
    using assms(1) by (simp add: noteName_C_sharp)
  from down_disallowed [OF c this, of n] show ?thesis
    using Down assms by simp
next
  case (Move mv)
  then show ?thesis using assms by (simp add: handleGridPointerMove_def)
next
  case Up
  then show ?thesis using assms by (simp add: handleGridPointerUp_def)
qed

lemma idle_gesture:
  "noteMode st = scale \<Longrightarrow> dragState st = None \<Longrightarrow> \<forall>e \<in> set es. on_row ''C#4'' e \<Longrightarrow>
   melody (gesture n st es) = melody st \<and> calls (gesture n st es) = calls st
   \<and> dragState (gesture n st es) = None"
proof (induction es arbitrary: st)
  case Nil
  then show ?case by (simp add: gesture_def)
next
  case (Cons e es)
  from Cons.prems have e: "on_row ''C#4'' e" and es: "\<forall>e \<in> set es. on_row ''C#4'' e"
    by simp_all
  note s = idle_step [OF Cons.prems(1) Cons.prems(2) e, of n]
  from s have "melody (gesture n (handle n st e) es) = melody (handle n st e)
     \<and> calls (gesture n (handle n st e) es) = calls (handle n st e)
     \<and> dragState (gesture n (handle n st e) es) = None"
    using Cons.IH [of "handle n st e"] es by blast
  with s show ?case by (simp add: gesture_def)
qed

text \<open>
  Claim C6. A pointer-down on a cell whose pitch is not allowed at its step leaves the
  timeline and the gesture state as they were and makes no outward call. In scale mode,
  from rest, no sequence of pointer events whose pointer-downs hit the row of C#4 changes
  the timeline.
\<close>

theorem disallowed_pointerDown_ignored:
  "(cell e = Some (s, p) \<and> \<not> isNoteAllowed (noteMode st) (progression st) p s \<longrightarrow>
      melody (handleGridPointerDown n st e) = melody st
      \<and> dragState (handleGridPointerDown n st e) = dragState st
      \<and> calls (handleGridPointerDown n st e) = calls st)
   \<and> (noteMode st = scale \<and> dragState st = None \<and> (\<forall>ev \<in> set es. on_row ''C#4'' ev) \<longrightarrow>
      melody (gesture n st es) = melody st \<and> calls (gesture n st es) = calls st
      \<and> dragState (gesture n st es) = None)"
  using down_disallowed [of e s p st n] idle_gesture [of st es n] by blast

theorem disallowed_pointerDown_ignored_witness:
  "melody (gesture 8 (idle scale DEFAULT_PROGRESSION [Some ''C4'', Some ''HOLD'', None])
      [Down \<lparr>pointerType = mouse, cell = Some (1, ''C#4''), firstCell = True\<rparr>,
       Move \<lparr>column = 2, under = None\<rparr>, Up])
     = [Some ''C4'', Some ''HOLD'', None]
   \<and> dragState (handleGridPointerDown 8 (idle chord DEFAULT_PROGRESSION [None, None])
        \<lparr>pointerType = touch, cell = Some (0, ''D4''), firstCell = True\<rparr>) = None"
proof -
  let ?st = "idle scale DEFAULT_PROGRESSION [Some ''C4'', Some ''HOLD'', None]"
  let ?es = "[Down \<lparr>pointerType = mouse, cell = Some (1, ''C#4''), firstCell = True\<rparr>,
       Move \<lparr>column = 2, under = None\<rparr>, Up]"
  let ?st2 = "idle chord DEFAULT_PROGRESSION [None, None]"
  let ?e = "\<lparr>pointerType = touch, cell = Some (0, ''D4''), firstCell = True\<rparr>"
  have h1: "noteMode ?st = scale \<and> dragState ?st = None \<and> (\<forall>ev \<in> set ?es. on_row ''C#4'' ev)"
    by (simp add: idle_def on_row_def)
  have h2: "cell ?e = Some (0, ''D4'') \<and> \<not> isNoteAllowed (noteMode ?st2) (progression ?st2) ''D4'' 0"
    by (simp add: idle_def isNoteAllowed_def js_index_def STEPS_PER_BAR_def
        DEFAULT_PROGRESSION_def CHORDS_C_MAJOR_def noteName_def isDigit_def)
  have "melody (gesture 8 ?st ?es) = melody ?st"
    using disallowed_pointerDown_ignored [of ?e 0 "''D4''" ?st 8 ?es] h1 by blast
  moreover have "dragState (handleGridPointerDown 8 ?st2 ?e) = dragState ?st2"
    using disallowed_pointerDown_ignored [of ?e 0 "''D4''" ?st2 8 "[]"] h2 by blast
  ultimately show ?thesis
    by (simp add: idle_def)
qed

section \<open>Pointer-down that creates a note\<close>

text \<open>
  What the create branch of the pointer-down handler does (lines 133-138): it writes the
  pitch at the step of the cell and touches no other slot.
\<close>

lemma create_branch_writes_one_slot:
  "cell e = Some (s, p) \<Longrightarrow> isNoteAllowed (noteMode st) (progression st) p s \<Longrightarrow>
   js_get (resolvedMelody n (melody st)) s \<noteq> Some p \<Longrightarrow>
   melody (handleGridPointerDown n st e) = js_set (melody st) s (Some p)
   \<and> calls (handleGridPointerDown n st e) =
       calls st @ [onSetMelody (js_set (melody st) s (Some p)), audio_previewNote p]
   \<and> dragState (handleGridPointerDown n st e) =
       Some \<lparr>isActive = True, startStep = s, pitch = p, mode = create, hasMoved = False\<rparr>"
  by (simp add: handleGridPointerDown_def Let_def)

text \<open>
  Claim C3. The claim asks that a pointer-down which creates a note clears the sustain
  markers that followed the overwritten slot. The handler does not: on the timeline
  C4, HOLD, HOLD, empty, a pointer-down at step 0 on E4 (allowed; the resolved pitch there
  is C4) emits E4, HOLD, HOLD, empty and calls the preview of E4, and a pointer-up leaves
  it so. The two sibling handlers run the clearing loop: the same gesture with one move on
  the same cell before the pointer-up ends with E4, empty, empty, empty. A pointer-down at
  step 1 on E4 emits C4, E4, HOLD, empty, a note of two steps from one tap.
\<close>

theorem pointerDown_create_leaves_sustain_run:
  "isNoteAllowed chromatic DEFAULT_PROGRESSION ''E4'' 0
   \<and> js_get (resolvedMelody 4 [Some ''C4'', Some ''HOLD'', Some ''HOLD'', None]) 0 = Some ''C4''
   \<and> js_get [Some ''C4'', Some ''HOLD'', Some ''HOLD'', None] 1 = Some SUSTAIN_TOKEN
   \<and> melody (handleGridPointerDown 4
         (idle chromatic DEFAULT_PROGRESSION [Some ''C4'', Some ''HOLD'', Some ''HOLD'', None])
         \<lparr>pointerType = mouse, cell = Some (0, ''E4''), firstCell = True\<rparr>)
       = [Some ''E4'', Some ''HOLD'', Some ''HOLD'', None]
   \<and> calls (handleGridPointerDown 4
         (idle chromatic DEFAULT_PROGRESSION [Some ''C4'', Some ''HOLD'', Some ''HOLD'', None])
         \<lparr>pointerType = mouse, cell = Some (0, ''E4''), firstCell = True\<rparr>)
       = [onSetMelody [Some ''E4'', Some ''HOLD'', Some ''HOLD'', None], audio_previewNote ''E4'']
   \<and> melody (gesture 4
         (idle chromatic DEFAULT_PROGRESSION [Some ''C4'', Some ''HOLD'', Some ''HOLD'', None])
         [Down \<lparr>pointerType = mouse, cell = Some (0, ''E4''), firstCell = True\<rparr>, Up])
       = [Some ''E4'', Some ''HOLD'', Some ''HOLD'', None]
   \<and> melody (gesture 4
         (idle chromatic DEFAULT_PROGRESSION [Some ''C4'', Some ''HOLD'', Some ''HOLD'', None])
         [Down \<lparr>pointerType = mouse, cell = Some (0, ''E4''), firstCell = True\<rparr>,
          Move \<lparr>column = 0, under = Some 0\<rparr>, Up])
       = [Some ''E4'', None, None, None]
   \<and> melody (handleGridPointerDown 4
         (idle chromatic DEFAULT_PROGRESSION [Some ''C4'', Some ''HOLD'', Some ''HOLD'', None])
         \<lparr>pointerType = mouse, cell = Some (1, ''E4''), firstCell = True\<rparr>)
       = [Some ''C4'', Some ''E4'', Some ''HOLD'', None]"
  by code_simp

section \<open>Pointer-up\<close>

lemma length_tapMelody:
  "startStep d < length (melody st) \<Longrightarrow> length (tapMelody n st d) = length (melody st)"
  by (simp add: tapMelody_def length_clear_loop length_js_set)

lemma scenario_D:
  "melody (gesture 8 (idle chord DEFAULT_PROGRESSION [None, None, Some ''C4'', None, None, None, None, None])
      [Down \<lparr>pointerType = mouse, cell = Some (2, ''C4''), firstCell = True\<rparr>, Up])
     = [None, None, None, None, None, None, None, None]"
  by code_simp

text \<open>
  Claim C4. Pointer-up (or pointer-leave) during a gesture: in resize mode without
  movement, the emitted timeline has the slot at \<open>startStep\<close> and the sustain markers
  that follow it without a gap (below \<open>TOTAL_STEPS\<close>) cleared, every other slot
  unchanged; in the other cases the timeline is not touched and nothing is emitted; the
  gesture state is cleared in all cases. A pointer-down on the note C4 at step 2 followed
  by a pointer-up empties the timeline of Scenario D.
\<close>

theorem pointerUp_delete_by_tap:
  "(dragState st = Some d \<and> mode d = resize \<and> \<not> hasMoved d \<longrightarrow>
      (\<forall>i. js_get (melody (handleGridPointerUp n st)) i =
         (if i = startStep d \<or>
             (startStep d < i \<and> i < n \<and>
              (\<forall>j. startStep d < j \<and> j \<le> i \<longrightarrow> js_get (melody st) j = Some SUSTAIN_TOKEN))
          then None else js_get (melody st) i))
      \<and> (startStep d < length (melody st) \<longrightarrow>
           length (melody (handleGridPointerUp n st)) = length (melody st))
      \<and> calls (handleGridPointerUp n st) =
          calls st @ [onSetMelody (melody (handleGridPointerUp n st))])
   \<and> (dragState st = Some d \<and> \<not> (mode d = resize \<and> \<not> hasMoved d) \<longrightarrow>
      melody (handleGridPointerUp n st) = melody st
      \<and> calls (handleGridPointerUp n st) = calls st)
   \<and> dragState (handleGridPointerUp n st) = None
   \<and> melody (gesture 8 (idle chord DEFAULT_PROGRESSION [None, None, Some ''C4'', None, None, None, None, None])
        [Down \<lparr>pointerType = mouse, cell = Some (2, ''C4''), firstCell = True\<rparr>, Up])
       = [None, None, None, None, None, None, None, None]"
proof (intro conjI impI allI)
  fix i
  assume a: "dragState st = Some d \<and> mode d = resize \<and> \<not> hasMoved d"
  then have m: "melody (handleGridPointerUp n st) = tapMelody n st d"
    by (simp add: handleGridPointerUp_def Let_def)
  show "js_get (melody (handleGridPointerUp n st)) i =
         (if i = startStep d \<or>
             (startStep d < i \<and> i < n \<and>
              (\<forall>j. startStep d < j \<and> j \<le> i \<longrightarrow> js_get (melody st) j = Some SUSTAIN_TOKEN))
          then None else js_get (melody st) i)"
    unfolding m by (rule js_get_tapMelody)
next
  assume a: "dragState st = Some d \<and> mode d = resize \<and> \<not> hasMoved d"
    and l: "startStep d < length (melody st)"
  from a have m: "melody (handleGridPointerUp n st) = tapMelody n st d"
    by (simp add: handleGridPointerUp_def Let_def)
  show "length (melody (handleGridPointerUp n st)) = length (melody st)"
    unfolding m using l by (rule length_tapMelody)
next
  assume a: "dragState st = Some d \<and> mode d = resize \<and> \<not> hasMoved d"
  then show "calls (handleGridPointerUp n st) =
          calls st @ [onSetMelody (melody (handleGridPointerUp n st))]"
    by (simp add: handleGridPointerUp_def Let_def)
next
  assume a: "dragState st = Some d \<and> \<not> (mode d = resize \<and> \<not> hasMoved d)"
  then show "melody (handleGridPointerUp n st) = melody st"
    by (auto simp: handleGridPointerUp_def Let_def)
  from a show "calls (handleGridPointerUp n st) = calls st"
    by (auto simp: handleGridPointerUp_def Let_def)
next
  show "dragState (handleGridPointerUp n st) = None"
    by (simp add: handleGridPointerUp_def Let_def)
next
  show "melody (gesture 8 (idle chord DEFAULT_PROGRESSION [None, None, Some ''C4'', None, None, None, None, None])
        [Down \<lparr>pointerType = mouse, cell = Some (2, ''C4''), firstCell = True\<rparr>, Up])
       = [None, None, None, None, None, None, None, None]"
    by (rule scenario_D)
qed

theorem pointerUp_delete_by_tap_witness:
  "js_get (melody (handleGridPointerUp 8
      ((idle chromatic DEFAULT_PROGRESSION [None, Some ''A4'', Some ''HOLD'', Some ''B4''])
         \<lparr>dragState := Some \<lparr>isActive = True, startStep = 1, pitch = ''A4'', mode = resize,
                              hasMoved = False\<rparr>\<rparr>))) 2 = None
   \<and> melody (handleGridPointerUp 8
      ((idle chromatic DEFAULT_PROGRESSION [None, Some ''A4'', Some ''HOLD'', Some ''B4''])
         \<lparr>dragState := Some \<lparr>isActive = True, startStep = 1, pitch = ''A4'', mode = create,
                              hasMoved = False\<rparr>\<rparr>))
     = [None, Some ''A4'', Some ''HOLD'', Some ''B4'']"
proof -
  let ?m = "[None, Some ''A4'', Some ''HOLD'', Some ''B4'']"
  let ?d = "\<lparr>isActive = True, startStep = 1, pitch = ''A4'', mode = resize, hasMoved = False\<rparr>"
  let ?c = "\<lparr>isActive = True, startStep = 1, pitch = ''A4'', mode = create, hasMoved = False\<rparr>"
  let ?st = "(idle chromatic DEFAULT_PROGRESSION ?m)\<lparr>dragState := Some ?d\<rparr>"
  let ?sc = "(idle chromatic DEFAULT_PROGRESSION ?m)\<lparr>dragState := Some ?c\<rparr>"
  have h: "dragState ?st = Some ?d \<and> mode ?d = resize \<and> \<not> hasMoved ?d"
    by (simp add: idle_def)
  have hc: "dragState ?sc = Some ?c \<and> \<not> (mode ?c = resize \<and> \<not> hasMoved ?c)"
    by (simp add: idle_def)
  have run: "startStep ?d < 2 \<and> (2::nat) < 8 \<and>
      (\<forall>j. startStep ?d < j \<and> j \<le> 2 \<longrightarrow> js_get (melody ?st) j = Some SUSTAIN_TOKEN)"
  proof (intro conjI allI impI)
    fix j assume "startStep ?d < j \<and> j \<le> 2"
    then have "j = 2" by simp
    then show "js_get (melody ?st) j = Some SUSTAIN_TOKEN"
      by (simp add: idle_def js_get_def SUSTAIN_TOKEN_def)
  qed simp_all
  have c: "2 = startStep ?d \<or>
             (startStep ?d < 2 \<and> (2::nat) < 8 \<and>
              (\<forall>j. startStep ?d < j \<and> j \<le> 2 \<longrightarrow> js_get (melody ?st) j = Some SUSTAIN_TOKEN))"
    using run by blast
  have "js_get (melody (handleGridPointerUp 8 ?st)) 2 =
         (if 2 = startStep ?d \<or>
             (startStep ?d < 2 \<and> (2::nat) < 8 \<and>
              (\<forall>j. startStep ?d < j \<and> j \<le> 2 \<longrightarrow> js_get (melody ?st) j = Some SUSTAIN_TOKEN))
          then None else js_get (melody ?st) 2)"
    using pointerUp_delete_by_tap [of ?st ?d 8] h by blast
  then have 1: "js_get (melody (handleGridPointerUp 8 ?st)) 2 = None"
    by (simp only: c if_True)
  have "melody (handleGridPointerUp 8 ?sc) = melody ?sc"
    using pointerUp_delete_by_tap [of ?sc ?c 8] hc by blast
  then have 2: "melody (handleGridPointerUp 8 ?sc) = ?m"
    by (simp add: idle_def)
  from 1 2 show ?thesis by simp
qed

section \<open>Pointer-move\<close>

lemma move_backward:
  "dragState st = Some d \<Longrightarrow> isActive d \<Longrightarrow> pointerStep n (dragMetrics st) e = int s' \<Longrightarrow>
   s' < startStep d \<Longrightarrow>
   melody (handleGridPointerMove n st e) = melody st \<and> calls (handleGridPointerMove n st e) = calls st"
  by (simp add: handleGridPointerMove_def Let_def)

lemma move_forward:
  "dragState st = Some d \<Longrightarrow> isActive d \<Longrightarrow> pointerStep n (dragMetrics st) e = int s' \<Longrightarrow>
   startStep d \<le> s' \<Longrightarrow>
   melody (handleGridPointerMove n st e) = moveMelody n st d s'
   \<and> calls (handleGridPointerMove n st e) = calls st @ [onSetMelody (moveMelody n st d s')]"
  by (simp add: handleGridPointerMove_def Let_def)

lemma scenario_C:
  "dragState (handleGridPointerDown 8
       (idle chromatic DEFAULT_PROGRESSION
          [None, None, Some ''E4'', Some ''HOLD'', Some ''HOLD'', None, None, None])
       \<lparr>pointerType = mouse, cell = Some (4, ''E4''), firstCell = True\<rparr>)
     = Some \<lparr>isActive = True, startStep = 2, pitch = ''E4'', mode = resize, hasMoved = False\<rparr>
   \<and> melody (gesture 8
       (idle chromatic DEFAULT_PROGRESSION
          [None, None, Some ''E4'', Some ''HOLD'', Some ''HOLD'', None, None, None])
       [Down \<lparr>pointerType = mouse, cell = Some (4, ''E4''), firstCell = True\<rparr>,
        Move \<lparr>column = 3, under = Some 3\<rparr>])
     = [None, None, Some ''E4'', Some ''HOLD'', None, None, None, None]"
  by code_simp

text \<open>
  Claim C2. A pointer-move of an active drag that resolves to step \<open>s'\<close>: below
  \<open>startStep\<close> the timeline is not touched. Otherwise the emitted timeline holds the
  pitch at \<open>startStep\<close>, the sustain marker at the steps after it up to \<open>s'\<close> as long as
  the pitch is allowed at every step so far, empty at the steps after \<open>s'\<close> that
  continue a run of sustain markers starting right after \<open>s'\<close>, and the old slot
  everywhere else; its length is that of the old timeline when \<open>s'\<close> lies inside it.
  Scenario C: grabbing the note E4 of steps 2 to 4 at step 4 and moving
  to step 3 clears step 4.
\<close>

theorem pointerMove_rebuilds_run:
  "(dragState st = Some d \<and> isActive d \<and> pointerStep n (dragMetrics st) e = int s'
      \<and> s' < startStep d \<longrightarrow>
      melody (handleGridPointerMove n st e) = melody st
      \<and> calls (handleGridPointerMove n st e) = calls st)
   \<and> (dragState st = Some d \<and> isActive d \<and> pointerStep n (dragMetrics st) e = int s'
      \<and> startStep d \<le> s' \<longrightarrow>
      (\<forall>i. js_get (melody (handleGridPointerMove n st e)) i =
         (if i = startStep d then Some (pitch d)
          else if startStep d < i \<and> i \<le> s' \<and>
                  (\<forall>j. startStep d < j \<and> j \<le> i \<longrightarrow>
                     isNoteAllowed (noteMode st) (progression st) (pitch d) j)
          then Some SUSTAIN_TOKEN
          else if s' < i \<and> i < n \<and>
                  (\<forall>j. s' < j \<and> j \<le> i \<longrightarrow> js_get (melody st) j = Some SUSTAIN_TOKEN)
          then None
          else js_get (melody st) i))
      \<and> (s' < length (melody st) \<longrightarrow>
           length (melody (handleGridPointerMove n st e)) = length (melody st))
      \<and> calls (handleGridPointerMove n st e) =
          calls st @ [onSetMelody (melody (handleGridPointerMove n st e))])
   \<and> dragState (handleGridPointerDown 8
       (idle chromatic DEFAULT_PROGRESSION
          [None, None, Some ''E4'', Some ''HOLD'', Some ''HOLD'', None, None, None])
       \<lparr>pointerType = mouse, cell = Some (4, ''E4''), firstCell = True\<rparr>)
     = Some \<lparr>isActive = True, startStep = 2, pitch = ''E4'', mode = resize, hasMoved = False\<rparr>
   \<and> melody (gesture 8
       (idle chromatic DEFAULT_PROGRESSION
          [None, None, Some ''E4'', Some ''HOLD'', Some ''HOLD'', None, None, None])
       [Down \<lparr>pointerType = mouse, cell = Some (4, ''E4''), firstCell = True\<rparr>,
        Move \<lparr>column = 3, under = Some 3\<rparr>])
     = [None, None, Some ''E4'', Some ''HOLD'', None, None, None, None]"
proof (intro conjI impI allI)
  assume a: "dragState st = Some d \<and> isActive d \<and> pointerStep n (dragMetrics st) e = int s'
      \<and> s' < startStep d"
  then show "melody (handleGridPointerMove n st e) = melody st"
    and "calls (handleGridPointerMove n st e) = calls st"
    using move_backward [of st d n e s'] by simp_all
next
  fix i
  assume a: "dragState st = Some d \<and> isActive d \<and> pointerStep n (dragMetrics st) e = int s'
      \<and> startStep d \<le> s'"
  then have m: "melody (handleGridPointerMove n st e) = moveMelody n st d s'"
    using move_forward [of st d n e s'] by simp
  from a have le: "startStep d \<le> s'" by simp
  show "js_get (melody (handleGridPointerMove n st e)) i =
         (if i = startStep d then Some (pitch d)
          else if startStep d < i \<and> i \<le> s' \<and>
                  (\<forall>j. startStep d < j \<and> j \<le> i \<longrightarrow>
                     isNoteAllowed (noteMode st) (progression st) (pitch d) j)
          then Some SUSTAIN_TOKEN
          else if s' < i \<and> i < n \<and>
                  (\<forall>j. s' < j \<and> j \<le> i \<longrightarrow> js_get (melody st) j = Some SUSTAIN_TOKEN)
          then None
          else js_get (melody st) i)"
    unfolding m using le by (rule js_get_moveMelody)
next
  assume a: "dragState st = Some d \<and> isActive d \<and> pointerStep n (dragMetrics st) e = int s'
      \<and> startStep d \<le> s'"
    and l: "s' < length (melody st)"
  from a have m: "melody (handleGridPointerMove n st e) = moveMelody n st d s'"
    using move_forward [of st d n e s'] by simp
  from a have le: "startStep d \<le> s'" by simp
  show "length (melody (handleGridPointerMove n st e)) = length (melody st)"
    unfolding m using le l by (rule length_moveMelody)
next
  assume a: "dragState st = Some d \<and> isActive d \<and> pointerStep n (dragMetrics st) e = int s'
      \<and> startStep d \<le> s'"
  then show "calls (handleGridPointerMove n st e) =
          calls st @ [onSetMelody (melody (handleGridPointerMove n st e))]"
    using move_forward [of st d n e s'] by simp
next
  show "dragState (handleGridPointerDown 8
       (idle chromatic DEFAULT_PROGRESSION
          [None, None, Some ''E4'', Some ''HOLD'', Some ''HOLD'', None, None, None])
       \<lparr>pointerType = mouse, cell = Some (4, ''E4''), firstCell = True\<rparr>)
     = Some \<lparr>isActive = True, startStep = 2, pitch = ''E4'', mode = resize, hasMoved = False\<rparr>"
    using scenario_C by (rule conjunct1)
next
  show "melody (gesture 8
       (idle chromatic DEFAULT_PROGRESSION
          [None, None, Some ''E4'', Some ''HOLD'', Some ''HOLD'', None, None, None])
       [Down \<lparr>pointerType = mouse, cell = Some (4, ''E4''), firstCell = True\<rparr>,
        Move \<lparr>column = 3, under = Some 3\<rparr>])
     = [None, None, Some ''E4'', Some ''HOLD'', None, None, None, None]"
    using scenario_C by (rule conjunct2)
qed

theorem pointerMove_rebuilds_run_witness:
  "js_get (melody (handleGridPointerMove 32
      ((idle chord DEFAULT_PROGRESSION
          [None, None, None, None, None, None, Some ''G4'', None, Some ''HOLD'', None])
         \<lparr>dragState := Some \<lparr>isActive = True, startStep = 6, pitch = ''G4'', mode = create,
                              hasMoved = False\<rparr>\<rparr>)
      \<lparr>column = 0, under = Some 9\<rparr>)) 7 = Some ''HOLD''
   \<and> js_get (melody (handleGridPointerMove 32
      ((idle chord DEFAULT_PROGRESSION
          [None, None, None, None, None, None, Some ''G4'', None, Some ''HOLD'', None])
         \<lparr>dragState := Some \<lparr>isActive = True, startStep = 6, pitch = ''G4'', mode = create,
                              hasMoved = False\<rparr>\<rparr>)
      \<lparr>column = 0, under = Some 9\<rparr>)) 8 = Some ''HOLD''
   \<and> melody (handleGridPointerMove 32
      ((idle chord DEFAULT_PROGRESSION
          [None, None, None, None, None, None, Some ''G4'', None, Some ''HOLD'', None])
         \<lparr>dragState := Some \<lparr>isActive = True, startStep = 6, pitch = ''G4'', mode = create,
                              hasMoved = False\<rparr>\<rparr>)
      \<lparr>column = 0, under = Some 2\<rparr>)
     = [None, None, None, None, None, None, Some ''G4'', None, Some ''HOLD'', None]"
proof -
  let ?m = "[None, None, None, None, None, None, Some ''G4'', None, Some ''HOLD'', None]"
  let ?d = "\<lparr>isActive = True, startStep = 6, pitch = ''G4'', mode = create, hasMoved = False\<rparr>"
  let ?st = "(idle chord DEFAULT_PROGRESSION ?m)\<lparr>dragState := Some ?d\<rparr>"
  let ?fw = "\<lparr>column = 0, under = Some 9\<rparr>"
  let ?bw = "\<lparr>column = 0, under = Some 2\<rparr>"
  let ?al = "isNoteAllowed (noteMode ?st) (progression ?st) (pitch ?d)"
  have hf: "dragState ?st = Some ?d \<and> isActive ?d \<and> pointerStep 32 (dragMetrics ?st) ?fw = int 9
      \<and> startStep ?d \<le> 9"
    by (simp add: idle_def pointerStep_def)
  have hb: "dragState ?st = Some ?d \<and> isActive ?d \<and> pointerStep 32 (dragMetrics ?st) ?bw = int 2
      \<and> 2 < startStep ?d"
    by (simp add: idle_def pointerStep_def)
  have al7: "?al 7" and al8: "\<not> ?al 8"
    by (simp_all add: idle_def isNoteAllowed_def js_index_def STEPS_PER_BAR_def
        DEFAULT_PROGRESSION_def CHORDS_C_MAJOR_def noteName_def isDigit_def)
  have run7: "(startStep ?d < 7 \<and> (7::nat) \<le> 9 \<and> (\<forall>j. startStep ?d < j \<and> j \<le> 7 \<longrightarrow> ?al j)) = True"
  proof -
    have "?al j" if "startStep ?d < j \<and> j \<le> 7" for j
    proof -
      from that have "j = 7" by simp
      with al7 show ?thesis by (simp only:)
    qed
    then show ?thesis by simp
  qed
  have run8: "(startStep ?d < 8 \<and> (8::nat) \<le> 9 \<and> (\<forall>j. startStep ?d < j \<and> j \<le> 8 \<longrightarrow> ?al j)) = False"
  proof -
    have "startStep ?d < 8 \<and> (8::nat) \<le> 8" by simp
    with al8 have "\<not> (\<forall>j. startStep ?d < j \<and> j \<le> 8 \<longrightarrow> ?al j)" by blast
    then show ?thesis by (simp only: simp_thms)
  qed
  have all: "\<forall>i. js_get (melody (handleGridPointerMove 32 ?st ?fw)) i =
         (if i = startStep ?d then Some (pitch ?d)
          else if startStep ?d < i \<and> i \<le> 9 \<and>
                  (\<forall>j. startStep ?d < j \<and> j \<le> i \<longrightarrow> ?al j)
          then Some SUSTAIN_TOKEN
          else if 9 < i \<and> i < 32 \<and>
                  (\<forall>j. 9 < j \<and> j \<le> i \<longrightarrow> js_get (melody ?st) j = Some SUSTAIN_TOKEN)
          then None
          else js_get (melody ?st) i)"
    using pointerMove_rebuilds_run [of ?st ?d 32 ?fw 9] hf by blast
  have n7: "(7::nat) \<noteq> startStep ?d" and n8: "(8::nat) \<noteq> startStep ?d" and n98: "\<not> (9::nat) < 8"
    by simp_all
  have 1: "js_get (melody (handleGridPointerMove 32 ?st ?fw)) 7 = Some ''HOLD''"
    using all [rule_format, of 7] n7 by (simp only: run7 if_True if_False SUSTAIN_TOKEN_def)
  have "js_get (melody (handleGridPointerMove 32 ?st ?fw)) 8 = js_get (melody ?st) 8"
    using all [rule_format, of 8] n8 n98 by (simp only: run8 if_False simp_thms)
  then have 2: "js_get (melody (handleGridPointerMove 32 ?st ?fw)) 8 = Some ''HOLD''"
    by (simp add: idle_def js_get_def)
  have "melody (handleGridPointerMove 32 ?st ?bw) = melody ?st"
    using pointerMove_rebuilds_run [of ?st ?d 32 ?bw 2] hb by blast
  then have 3: "melody (handleGridPointerMove 32 ?st ?bw) = ?m"
    by (simp add: idle_def)
  from 1 2 3 show ?thesis by (simp only: simp_thms)
qed

lemma chord_drag_breaks_at_bar:
  "melody (handleGridPointerMove 32
      ((idle chord DEFAULT_PROGRESSION
          [None, None, None, None, None, None, Some ''G4'', None, Some ''HOLD'', None])
         \<lparr>dragState := Some \<lparr>isActive = True, startStep = 6, pitch = ''G4'', mode = create,
                              hasMoved = False\<rparr>\<rparr>)
      \<lparr>column = 0, under = Some 9\<rparr>)
   = [None, None, None, None, None, None, Some ''G4'', Some ''HOLD'', Some ''HOLD'', None]"
  by code_simp

section \<open>The first move cancels the delete-by-tap\<close>

lemma move_hasMoved:
  "dragState st = Some d \<Longrightarrow> isActive d \<Longrightarrow> pointerStep n (dragMetrics st) e \<noteq> -1 \<Longrightarrow>
   dragState (handleGridPointerMove n st e) = Some (d\<lparr>hasMoved := True\<rparr>)"
  by (simp add: handleGridPointerMove_def Let_def)

lemma up_after_moved:
  "dragState st = Some d \<Longrightarrow> hasMoved d \<Longrightarrow>
   melody (handleGridPointerUp n st) = melody st \<and> calls (handleGridPointerUp n st) = calls st"
  by (simp add: handleGridPointerUp_def Let_def)

lemma wiggle:
  "melody (gesture 8
       (idle chord DEFAULT_PROGRESSION [None, None, Some ''C4'', None, None, None, None, None])
       [Down \<lparr>pointerType = mouse, cell = Some (2, ''C4''), firstCell = True\<rparr>,
        Move \<lparr>column = 2, under = Some 2\<rparr>, Up])
     = [None, None, Some ''C4'', None, None, None, None, None]"
  by code_simp

text \<open>
  Claim C9. A pointer-move of an active drag that resolves to a step sets \<open>hasMoved\<close>,
  also when that step is the start step, and the pointer-up that follows then leaves the
  timeline alone: a tap with a move in place on the note C4 does not delete it.
\<close>

theorem first_move_sets_hasMoved:
  "(dragState st = Some d \<and> isActive d \<and> pointerStep n (dragMetrics st) e \<noteq> -1 \<longrightarrow>
      dragState (handleGridPointerMove n st e) = Some (d\<lparr>hasMoved := True\<rparr>)
      \<and> melody (handleGridPointerUp n (handleGridPointerMove n st e))
          = melody (handleGridPointerMove n st e)
      \<and> calls (handleGridPointerUp n (handleGridPointerMove n st e))
          = calls (handleGridPointerMove n st e))
   \<and> (dragState st = Some d \<and> isActive d \<and> pointerStep n (dragMetrics st) e = int (startStep d)
      \<longrightarrow> dragState (handleGridPointerMove n st e) = Some (d\<lparr>hasMoved := True\<rparr>))
   \<and> melody (gesture 8
       (idle chord DEFAULT_PROGRESSION [None, None, Some ''C4'', None, None, None, None, None])
       [Down \<lparr>pointerType = mouse, cell = Some (2, ''C4''), firstCell = True\<rparr>,
        Move \<lparr>column = 2, under = Some 2\<rparr>, Up])
     = [None, None, Some ''C4'', None, None, None, None, None]"
proof (intro conjI impI)
  assume a: "dragState st = Some d \<and> isActive d \<and> pointerStep n (dragMetrics st) e \<noteq> -1"
  then show ds: "dragState (handleGridPointerMove n st e) = Some (d\<lparr>hasMoved := True\<rparr>)"
    using move_hasMoved [of st d n e] by simp
  have hm: "hasMoved (d\<lparr>hasMoved := True\<rparr>)" by simp
  from up_after_moved [OF ds hm, of n]
  show "melody (handleGridPointerUp n (handleGridPointerMove n st e))
          = melody (handleGridPointerMove n st e)"
    and "calls (handleGridPointerUp n (handleGridPointerMove n st e))
          = calls (handleGridPointerMove n st e)"
    by simp_all
next
  assume a: "dragState st = Some d \<and> isActive d \<and> pointerStep n (dragMetrics st) e = int (startStep d)"
  then have "pointerStep n (dragMetrics st) e \<noteq> -1" by simp
  with a show "dragState (handleGridPointerMove n st e) = Some (d\<lparr>hasMoved := True\<rparr>)"
    using move_hasMoved [of st d n e] by simp
next
  show "melody (gesture 8
       (idle chord DEFAULT_PROGRESSION [None, None, Some ''C4'', None, None, None, None, None])
       [Down \<lparr>pointerType = mouse, cell = Some (2, ''C4''), firstCell = True\<rparr>,
        Move \<lparr>column = 2, under = Some 2\<rparr>, Up])
     = [None, None, Some ''C4'', None, None, None, None, None]"
    by (rule wiggle)
qed

theorem first_move_sets_hasMoved_witness:
  "dragState (handleGridPointerMove 8
      ((idle chromatic DEFAULT_PROGRESSION [Some ''F4'', None])
         \<lparr>dragState := Some \<lparr>isActive = True, startStep = 0, pitch = ''F4'', mode = resize,
                              hasMoved = False\<rparr>,
           dragMetrics := True\<rparr>)
      \<lparr>column = 0, under = None\<rparr>)
     = Some \<lparr>isActive = True, startStep = 0, pitch = ''F4'', mode = resize, hasMoved = True\<rparr>"
proof -
  let ?d = "\<lparr>isActive = True, startStep = 0, pitch = ''F4'', mode = resize, hasMoved = False\<rparr>"
  let ?st = "(idle chromatic DEFAULT_PROGRESSION [Some ''F4'', None])
         \<lparr>dragState := Some ?d, dragMetrics := True\<rparr>"
  let ?e = "\<lparr>column = 0, under = None\<rparr>"
  have h: "dragState ?st = Some ?d \<and> isActive ?d \<and> pointerStep 8 (dragMetrics ?st) ?e = int (startStep ?d)"
    by (simp add: idle_def pointerStep_def)
  have "dragState (handleGridPointerMove 8 ?st ?e) = Some (?d\<lparr>hasMoved := True\<rparr>)"
    using first_move_sets_hasMoved [of ?st ?d 8 ?e] h by blast
  then show ?thesis by simp
qed

section \<open>The sequencer's tick\<close>

lemma durationSteps_loop_count:
  "durationSteps_loop m i k = k + length (takeWhile is_sustain (drop i m))"
proof (induction m i k rule: durationSteps_loop.induct)
  case (1 m i k)
  show ?case
  proof (cases "i < length m")
    case False
    then show ?thesis
      by (simp add: durationSteps_loop.simps [of m i k])
  next
    case True
    then have d: "drop i m = m ! i # drop (Suc i) m"
      by (simp add: Cons_nth_drop_Suc)
    have g: "js_get m i = m ! i"
      using True by (simp add: js_get_def)
    show ?thesis
    proof (cases "js_get m i = Some SUSTAIN_TOKEN")
      case sus: True
      then show ?thesis
        using True "1.IH" g by (simp add: durationSteps_loop.simps [of m i k] d is_sustain_def)
    next
      case False
      then show ?thesis
        using True g by (simp add: durationSteps_loop.simps [of m i k] d is_sustain_def)
    qed
  qed
qed

lemma synth_triggerChord: "synth (triggerChord a b) = synth a"
  by (simp add: triggerChord_def split: option.splits)

lemma synth_chordStep: "synth (chordStep a i) = synth a"
  by (simp add: chordStep_def synth_triggerChord)

text \<open>
  Claim C7. On a tick at step \<open>i\<close> of the initialised service: when the slot is a concrete
  pitch, the melody synth is triggered with that pitch for one subdivision plus one for
  each sustain marker that follows \<open>i\<close> without a gap; when the slot is a sustain marker
  or empty, the melody synth is not triggered.
\<close>

theorem sequenceCallback_triggers_note:
  "(synth a = Some vs \<and> js_get (AudioService.melody a) i = Some p \<and> is_pitch (Some p) \<longrightarrow>
      synth (fst (sequenceCallback a i)) =
        Some (vs @ [([p], eighths (1 + length (takeWhile is_sustain
                                     (drop (Suc i) (AudioService.melody a)))))]))
   \<and> (\<not> is_pitch (js_get (AudioService.melody a) i) \<longrightarrow>
        synth (fst (sequenceCallback a i)) = synth a)"
proof (intro conjI impI)
  assume h: "synth a = Some vs \<and> js_get (AudioService.melody a) i = Some p \<and> is_pitch (Some p)"
  then have "truthy (Some p)" and "p \<noteq> SUSTAIN_TOKEN"
    by (auto simp: is_pitch_def)
  with h show "synth (fst (sequenceCallback a i)) =
        Some (vs @ [([p], eighths (1 + length (takeWhile is_sustain
                                     (drop (Suc i) (AudioService.melody a)))))])"
    by (simp add: sequenceCallback_def synth_chordStep melodyStep_def triggerAttackRelease_def
        durationSteps_loop_count)
next
  assume h: "\<not> is_pitch (js_get (AudioService.melody a) i)"
  then show "synth (fst (sequenceCallback a i)) = synth a"
    by (auto simp: sequenceCallback_def synth_chordStep melodyStep_def is_pitch_def
        split: option.splits)
qed

theorem sequenceCallback_triggers_note_witness:
  "synth (fst (sequenceCallback
      \<lparr>synth = Some [], chordSynth = Some [],
       melody = [Some ''C4'', Some ''HOLD'', Some ''HOLD'', None, Some ''HOLD''],
       progression = Some DEFAULT_PROGRESSION, isInitialized = True, isChordEnabled = True,
       onStepCallback = True, currentStepIndex = 0, transport = started\<rparr> 0))
     = Some [([''C4''], eighths 3)]
   \<and> synth (fst (sequenceCallback
      \<lparr>synth = Some [], chordSynth = Some [],
       melody = [Some ''C4'', Some ''HOLD'', Some ''HOLD'', None, Some ''HOLD''],
       progression = Some DEFAULT_PROGRESSION, isInitialized = True, isChordEnabled = True,
       onStepCallback = True, currentStepIndex = 0, transport = started\<rparr> 1))
     = Some []"
proof -
  let ?m = "[Some ''C4'', Some ''HOLD'', Some ''HOLD'', None, Some ''HOLD'']"
  let ?a = "\<lparr>synth = Some [], chordSynth = Some [], melody = ?m,
       progression = Some DEFAULT_PROGRESSION, isInitialized = True, isChordEnabled = True,
       onStepCallback = True, currentStepIndex = 0, transport = started\<rparr>"
  have h0: "synth ?a = Some [] \<and> js_get (AudioService.melody ?a) 0 = Some ''C4''
      \<and> is_pitch (Some ''C4'')"
    by (simp add: js_get_def is_pitch_def truthy_def SUSTAIN_TOKEN_def)
  have h1: "\<not> is_pitch (js_get (AudioService.melody ?a) 1)"
    by (simp add: js_get_def is_pitch_def truthy_def SUSTAIN_TOKEN_def)
  have "synth (fst (sequenceCallback ?a 0)) =
        Some ([] @ [([''C4''], eighths (1 + length (takeWhile is_sustain
                                     (drop (Suc 0) (AudioService.melody ?a)))))])"
    using sequenceCallback_triggers_note [of ?a "[]" 0 "''C4''"] h0 by blast
  then have 1: "synth (fst (sequenceCallback ?a 0)) = Some [([''C4''], eighths 3)]"
    by (simp add: is_sustain_def SUSTAIN_TOKEN_def)
  have "synth (fst (sequenceCallback ?a 1)) = synth ?a"
    using sequenceCallback_triggers_note [of ?a "[]" 1 "''C4''"] h1 by blast
  then have 2: "synth (fst (sequenceCallback ?a 1)) = Some []"
    by simp
  from 1 2 show ?thesis by (simp only: simp_thms)
qed

section \<open>Play, pause and stop\<close>

lemma init_init: "init (init a) = init a"
  by (simp add: init_def)

lemma releaseAll_releaseAll: "releaseAll (releaseAll a) = releaseAll a"
  by (simp add: releaseAll_def split: option.splits)

lemma play_play: "play (play a) = play a"
  by (simp add: play_def init_def Let_def Transport_start_def)

lemma pause_pause: "pause (pause a) = pause a"
  by (simp add: pause_def releaseAll_def Transport_pause_def split: option.splits)

lemma stop_stop: "stop (stop a) = stop a"
  by (simp add: stop_def releaseAll_def Transport_stop_def split: option.splits)

text \<open>
  Claim C8. The view's stop sets the reported step to \<open>-1\<close> (none), stops the transport
  and releases the voices of both synths; pause releases the voices and keeps the step,
  in the service and in the view; play, pause and stop of the service and the view's stop
  are idempotent.
\<close>

theorem transport_controls:
  "currentStep (handleStop v) = -1
   \<and> transport (audioService (handleStop v)) = stopped
   \<and> synth (audioService (handleStop v)) = map_option (\<lambda>s. []) (synth (audioService v))
   \<and> chordSynth (audioService (handleStop v)) = map_option (\<lambda>s. []) (chordSynth (audioService v))
   \<and> synth (pause a) = map_option (\<lambda>s. []) (synth a)
   \<and> chordSynth (pause a) = map_option (\<lambda>s. []) (chordSynth a)
   \<and> currentStepIndex (pause a) = currentStepIndex a
   \<and> currentStep (handlePlayPause v) = currentStep v
   \<and> play (play a) = play a
   \<and> pause (pause a) = pause a
   \<and> stop (stop a) = stop a
   \<and> handleStop (handleStop v) = handleStop v"
proof (intro conjI)
  show "currentStep (handleStop v) = -1"
    by (simp add: handleStop_def)
  show "transport (audioService (handleStop v)) = stopped"
    by (simp add: handleStop_def stop_def releaseAll_def Transport_stop_def)
  show "synth (audioService (handleStop v)) = map_option (\<lambda>s. []) (synth (audioService v))"
    by (simp add: handleStop_def stop_def releaseAll_def split: option.splits)
  show "chordSynth (audioService (handleStop v)) = map_option (\<lambda>s. []) (chordSynth (audioService v))"
    by (simp add: handleStop_def stop_def releaseAll_def split: option.splits)
  show "synth (pause a) = map_option (\<lambda>s. []) (synth a)"
    by (simp add: pause_def releaseAll_def split: option.splits)
  show "chordSynth (pause a) = map_option (\<lambda>s. []) (chordSynth a)"
    by (simp add: pause_def releaseAll_def split: option.splits)
  show "currentStepIndex (pause a) = currentStepIndex a"
    by (simp add: pause_def releaseAll_def)
  show "currentStep (handlePlayPause v) = currentStep v"
    by (simp add: handlePlayPause_def Let_def)
  show "play (play a) = play a" by (rule play_play)
  show "pause (pause a) = pause a" by (rule pause_pause)
  show "stop (stop a) = stop a" by (rule stop_stop)
  show "handleStop (handleStop v) = handleStop v"
    by (simp add: handleStop_def stop_stop)
qed

end
